theory Spec2Isabelle
  imports Complex_Main
begin

section \<open>Strings and the built-in string operations used by \<open>run\<close>\<close>

text \<open>
  A Python \<open>str\<close> is a sequence of code points. It is modelled as a \<open>string\<close>, each
  \<open>char\<close> standing for one code point in the range U+0000 .. U+00FF (the ASCII and Latin-1
  blocks); strings with code points beyond U+00FF are outside the model. The character
  classes below are those of the interpreter restricted to that range.
\<close>

definition code_point :: "char \<Rightarrow> nat" where
  "code_point c = of_char c"

definition py_isspace :: "char \<Rightarrow> bool" where
  \<comment> \<open>the whitespace of \<open>str.strip()\<close> and \<open>str.isspace()\<close>\<close>
  "py_isspace c = (code_point c \<in> {9, 10, 11, 12, 13, 28, 29, 30, 31, 32, 133, 160})"

definition c_isspace :: "char \<Rightarrow> bool" where
  \<comment> \<open>the whitespace that the numeric parsers skip at both ends of their ASCII buffer\<close>
  "c_isspace c = (code_point c \<in> {9, 10, 11, 12, 13, 32})"

definition is_decimal :: "char \<Rightarrow> bool" where
  \<comment> \<open>a decimal digit (the only ones below U+0100 are \<open>0\<close> .. \<open>9\<close>)\<close>
  "is_decimal c = (48 \<le> code_point c \<and> code_point c \<le> 57)"

definition is_digit_char :: "char \<Rightarrow> bool" where
  \<comment> \<open>a character counted as a digit by \<open>str.isdigit()\<close>: the decimal digits and the
      superscripts U+00B2, U+00B3, U+00B9\<close>
  "is_digit_char c = (is_decimal c \<or> code_point c \<in> {178, 179, 185})"

definition is_upper :: "char \<Rightarrow> bool" where
  \<comment> \<open>the characters changed by \<open>str.lower()\<close>: \<open>A\<close> .. \<open>Z\<close> and U+00C0 .. U+00DE
      without the multiplication sign U+00D7\<close>
  "is_upper c = ((65 \<le> code_point c \<and> code_point c \<le> 90) \<or>
                 (192 \<le> code_point c \<and> code_point c \<le> 222 \<and> code_point c \<noteq> 215))"

definition lower_char :: "char \<Rightarrow> char" where
  \<comment> \<open>the lower-case letter is 32 code points above the upper-case one, that is,
      the same character with bit 5 set\<close>
  "lower_char c =
     (if is_upper c
      then (case c of Char b0 b1 b2 b3 b4 b5 b6 b7 \<Rightarrow> Char b0 b1 b2 b3 b4 True b6 b7)
      else c)"

definition py_lower :: "string \<Rightarrow> string" where
  "py_lower s = map lower_char s"

definition py_strip :: "string \<Rightarrow> string" where
  "py_strip s = rev (dropWhile py_isspace (rev (dropWhile py_isspace s)))"

definition py_isdigit :: "string \<Rightarrow> bool" where
  \<comment> \<open>\<open>str.isdigit()\<close>: at least one character, and all of them digits\<close>
  "py_isdigit s = (s \<noteq> [] \<and> list_all is_digit_char s)"

fun py_split :: "char \<Rightarrow> string \<Rightarrow> string list" where
  \<comment> \<open>\<open>s.split(sep)\<close> for a one-character separator\<close>
  "py_split sep [] = [[]]"
| "py_split sep (c # cs) =
     (if c = sep then [] # py_split sep cs
      else (case py_split sep cs of w # ws \<Rightarrow> (c # w) # ws | [] \<Rightarrow> [[c]]))"

definition py_split1 :: "char \<Rightarrow> string \<Rightarrow> string list" where
  \<comment> \<open>\<open>s.split(sep, 1)\<close>: at most one split, at the first separator\<close>
  "py_split1 sep s =
     (if sep \<in> set s
      then [takeWhile (\<lambda>c. c \<noteq> sep) s, tl (dropWhile (\<lambda>c. c \<noteq> sep) s)]
      else [s])"

section \<open>The built-in conversions \<open>int\<close> and \<open>float\<close> on strings\<close>

datatype exn = ValueError

text \<open>
  A float is a double: a sign with a magnitude that a double has (so the two zeros
  differ), an infinity with its sign, or not-a-number. An \<open>int\<close> is unbounded, but the
  conversion from a string refuses more decimal digits than the interpreter's limit,
  taken at its default.
\<close>

datatype pyfloat = Finite bool rat | Infinity bool | NaN

definition int_max_str_digits :: nat where
  \<comment> \<open>\<open>sys.get_int_max_str_digits()\<close>, by default\<close>
  "int_max_str_digits = 4300"

fun digits_val :: "nat \<Rightarrow> string \<Rightarrow> nat" where
  "digits_val acc [] = acc"
| "digits_val acc (c # cs) = digits_val (10 * acc + (code_point c - 48)) cs"

definition all_ascii :: "string \<Rightarrow> bool" where
  "all_ascii s = list_all (\<lambda>c. code_point c < 128) s"

fun transform_chars :: "string \<Rightarrow> string" where
  "transform_chars [] = []"
| "transform_chars (c # cs) =
     (if code_point c < 127 then c # transform_chars cs
      else if py_isspace c then CHR '' '' # transform_chars cs
      else ''?'')"

definition to_ascii :: "string \<Rightarrow> string" where
  \<comment> \<open>both conversions first bring the string to ASCII: an ASCII string is taken as it is;
      otherwise whitespace becomes a blank and the text is cut, with a question mark, at
      the first other character from U+007F on (none is a decimal digit below U+0100)\<close>
  "to_ascii s = (if all_ascii s then s else transform_chars s)"

definition c_strip :: "string \<Rightarrow> string" where
  "c_strip s = rev (dropWhile c_isspace (rev (dropWhile c_isspace s)))"

fun strip_underscores :: "char \<Rightarrow> string \<Rightarrow> string option" where
  \<comment> \<open>an underscore is allowed only between two decimal digits; the first argument
      is the previous character\<close>
  "strip_underscores prev [] = (if prev = CHR ''_'' then None else Some [])"
| "strip_underscores prev (c # cs) =
     (if c = CHR ''_''
      then (if is_decimal prev then strip_underscores c cs else None)
      else if prev = CHR ''_'' \<and> \<not> is_decimal c then None
      else map_option ((#) c) (strip_underscores c cs))"

definition take_sign :: "string \<Rightarrow> bool \<times> string" where
  "take_sign s =
     (case s of
        [] \<Rightarrow> (False, [])
      | c # cs \<Rightarrow> if c = CHR ''-'' then (True, cs)
                 else if c = CHR ''+'' then (False, cs) else (False, s))"

definition py_int :: "string \<Rightarrow> exn + int" where
  \<comment> \<open>\<open>int(s)\<close> in base 10: blanks at both ends, an optional sign, decimal digits
      with single underscores between them, and no more digits than the limit\<close>
  "py_int s =
     (case take_sign (c_strip (to_ascii s)) of (neg, r) \<Rightarrow>
        (case strip_underscores (CHR 0x00) r of
           None \<Rightarrow> Inl ValueError
         | Some ds \<Rightarrow>
             if ds \<noteq> [] \<and> list_all is_decimal ds \<and> length ds \<le> int_max_str_digits
             then Inr (if neg then - int (digits_val 0 ds) else int (digits_val 0 ds))
             else Inl ValueError))"

definition ascii_lower :: "char \<Rightarrow> char" where
  "ascii_lower c = (if 65 \<le> code_point c \<and> code_point c \<le> 90 then lower_char c else c)"

fun bit_length :: "nat \<Rightarrow> nat" where
  \<comment> \<open>the number of binary digits of \<open>n\<close>: \<open>2 ^ (k - 1) \<le> n < 2 ^ k\<close> for \<open>n > 0\<close>\<close>
  "bit_length n = (if n = 0 then 0 else Suc (bit_length (n div 2)))"

declare bit_length.simps [simp del]

definition pow2 :: "int \<Rightarrow> rat" where
  "pow2 k = (if 0 \<le> k then 2 ^ nat k else 1 / 2 ^ nat (- k))"

definition round_half_even :: "nat \<Rightarrow> nat \<Rightarrow> nat" where
  \<comment> \<open>the integer nearest to \<open>n / d\<close>, the even one of two that are equally near\<close>
  "round_half_even n d =
     (let f = n div d; r = n mod d
      in if 2 * r < d then f
         else if d < 2 * r then f + 1
         else if even f then f else f + 1)"

definition to_double :: "bool \<Rightarrow> nat \<Rightarrow> nat \<Rightarrow> pyfloat" where
  \<comment> \<open>the double nearest to \<open>\<plusminus> a / b\<close>, ties to even. With \<open>2 ^ e0 \<le> a / b < 2 ^ (e0 + 1)\<close>
      the last binary place kept is \<open>e = e0 - 52\<close>, and not below \<open>- 1074\<close>; the result is
      \<open>m * 2 ^ e\<close> for the integer \<open>m\<close> nearest to \<open>a / b / 2 ^ e\<close>, or an infinity from
      \<open>2 ^ 1024\<close> on\<close>
  "to_double neg a b =
     (if a = 0 then Finite neg 0
      else
        let d = int (bit_length a) - int (bit_length b);
            e0 = (if (if 0 \<le> d then b * 2 ^ nat d \<le> a else b \<le> a * 2 ^ nat (- d))
                  then d else d - 1);
            e = max (e0 - 52) (- 1074);
            m = (if 0 \<le> e then round_half_even a (b * 2 ^ nat e)
                 else round_half_even (a * 2 ^ nat (- e)) b)
        in if 1024 < int (bit_length m) + e then Infinity neg
           else Finite neg (of_nat m * pow2 e))"

definition scale10 :: "bool \<Rightarrow> nat \<Rightarrow> int \<Rightarrow> pyfloat" where
  \<comment> \<open>the double nearest to \<open>\<plusminus> m * 10 ^ k\<close>\<close>
  "scale10 neg m k =
     (if 0 \<le> k then to_double neg (m * 10 ^ nat k) 1 else to_double neg m (10 ^ nat (- k)))"

definition parse_decimal :: "string \<Rightarrow> pyfloat option" where
  \<comment> \<open>an optional sign, digits with an optional point (at least one digit in all), and an
      optional exponent \<open>e\<close> or \<open>E\<close> with optional sign and at least one digit; the whole
      text must be used up\<close>
  "parse_decimal s =
     (case take_sign s of (neg, r0) \<Rightarrow>
        let ip = takeWhile is_decimal r0;
            r1 = dropWhile is_decimal r0;
            fp = (case r1 of [] \<Rightarrow> []
                  | c # t \<Rightarrow> if c = CHR ''.'' then takeWhile is_decimal t else []);
            r2 = (case r1 of [] \<Rightarrow> []
                  | c # t \<Rightarrow> if c = CHR ''.'' then dropWhile is_decimal t else r1)
        in if ip = [] \<and> fp = [] then None
           else (case r2 of
                   [] \<Rightarrow> Some (scale10 neg (digits_val 0 (ip @ fp)) (- int (length fp)))
                 | c # t \<Rightarrow>
                     if c = CHR ''e'' \<or> c = CHR ''E''
                     then (case take_sign t of (eneg, ds) \<Rightarrow>
                             if ds \<noteq> [] \<and> list_all is_decimal ds
                             then Some (scale10 neg (digits_val 0 (ip @ fp))
                                    ((if eneg then - int (digits_val 0 ds)
                                      else int (digits_val 0 ds)) - int (length fp)))
                             else None)
                     else None))"

definition parse_inf_or_nan :: "string \<Rightarrow> pyfloat option" where
  \<comment> \<open>an optional sign and one of \<open>inf\<close>, \<open>infinity\<close>, \<open>nan\<close>, in any letter case\<close>
  "parse_inf_or_nan s =
     (case take_sign s of (neg, r) \<Rightarrow>
        let l = map ascii_lower r
        in if l = ''inf'' \<or> l = ''infinity'' then Some (Infinity neg)
           else if l = ''nan'' then Some NaN
           else None)"

definition py_float :: "string \<Rightarrow> exn + pyfloat" where
  \<comment> \<open>\<open>float(s)\<close>: underscores are checked and removed, blanks at both ends are skipped,
      then the text is read as a decimal literal or, failing that, as infinity or nan\<close>
  "py_float s =
     (case strip_underscores (CHR 0x00) (to_ascii s) of
        None \<Rightarrow> Inl ValueError
      | Some t \<Rightarrow>
          let u = c_strip t
          in if u = [] then Inl ValueError
             else (case parse_decimal u of
                     Some x \<Rightarrow> Inr x
                   | None \<Rightarrow>
                       (case parse_inf_or_nan u of
                          Some x \<Rightarrow> Inr x
                        | None \<Rightarrow> Inl ValueError)))"

section \<open>Settings coercion (\<open>run\<close>, lines 130 to 148)\<close>

datatype setting_value = VBool bool | VInt int | VFloat pyfloat | VStr string

text \<open>
  The dictionary \<open>additional_settings\<close> is an association list in insertion order;
  storing under a key that is present replaces its value in place, as a \<open>dict\<close> does.
\<close>

type_synonym settings_dict = "(string \<times> setting_value) list"

fun dict_set :: "'k \<Rightarrow> 'v \<Rightarrow> ('k \<times> 'v) list \<Rightarrow> ('k \<times> 'v) list" where
  "dict_set k v [] = [(k, v)]"
| "dict_set k v ((k', v') # d) =
     (if k' = k then (k, v) # d else (k', v') # dict_set k v d)"

datatype log_level = NOTSET | DEBUG | INFO | WARNING | ERROR | CRITICAL

text \<open>A log message is kept as the parts of its f-string, without rendering them.\<close>

datatype piece =
    Lit string | PStr string | PInt int | PBool bool
  | PFloat pyfloat | PDict settings_dict

type_synonym log_call = "log_level \<times> piece list"

definition infer_value :: "string \<Rightarrow> exn + setting_value" where
  \<comment> \<open>lines 138 to 146: only the call of \<open>float\<close> is inside the \<open>try\<close>\<close>
  "infer_value value =
     (if py_lower value = ''true'' \<or> py_lower value = ''false''
      then Inr (VBool (py_lower value = ''true''))
      else if py_isdigit value
      then (case py_int value of Inl e \<Rightarrow> Inl e | Inr n \<Rightarrow> Inr (VInt n))
      else (case py_float value of
              Inr x \<Rightarrow> Inr (VFloat x)
            | Inl ValueError \<Rightarrow> Inr (VStr value)))"

definition parse_setting ::
  "string \<Rightarrow> settings_dict \<Rightarrow> (exn + settings_dict) \<times> log_call list" where
  \<comment> \<open>the body of the loop, lines 135 to 148; unpacking anything but two parts
      raises \<open>ValueError\<close>\<close>
  "parse_setting setting d =
     (if CHR ''='' \<in> set setting
      then (case py_split1 (CHR ''='') setting of
              [key, value] \<Rightarrow>
                (case infer_value value of
                   Inl e \<Rightarrow> (Inl e, [])
                 | Inr v \<Rightarrow> (Inr (dict_set (py_strip key) v d), []))
            | _ \<Rightarrow> (Inl ValueError, []))
      else (Inr d, [(WARNING, [Lit ''Ignoring invalid setting format: '', PStr setting])]))"

fun parse_entries ::
  "string list \<Rightarrow> settings_dict \<Rightarrow> (exn + settings_dict) \<times> log_call list" where
  \<comment> \<open>the loop of line 134: an exception leaves it, the warnings logged so far remain\<close>
  "parse_entries [] d = (Inr d, [])"
| "parse_entries (setting # rest) d =
     (case parse_setting setting d of
        (Inl e, w) \<Rightarrow> (Inl e, w)
      | (Inr d', w) \<Rightarrow> (case parse_entries rest d' of (r, w') \<Rightarrow> (r, w @ w')))"

definition settings_list :: "string \<Rightarrow> string list" where
  \<comment> \<open>line 133\<close>
  "settings_list settings =
     (if CHR '','' \<in> set settings then py_split (CHR '','') settings else [settings])"

definition parse_settings ::
  "string option \<Rightarrow> (exn + settings_dict) \<times> log_call list" where
  \<comment> \<open>lines 130 to 148; \<open>if settings:\<close> is false for \<open>None\<close> and for the empty string\<close>
  "parse_settings settings =
     (case settings of
        None \<Rightarrow> (Inr [], [])
      | Some s \<Rightarrow> if s = [] then (Inr [], []) else parse_entries (settings_list s) [])"

section \<open>Logging policy (\<open>setup_logging\<close>)\<close>

datatype handler = StreamHandler string

text \<open>
  The process-wide logging configuration: the level and the handlers of the root logger
  (a stream handler carries its format string) and the level of every named logger.
\<close>

record logging_state =
  root_level :: log_level
  root_handlers :: "handler list"
  logger_level :: "string \<Rightarrow> log_level"

definition basicConfig :: "log_level \<Rightarrow> string \<Rightarrow> bool \<Rightarrow> logging_state \<Rightarrow> logging_state" where
  \<comment> \<open>\<open>logging.basicConfig(level, format, force)\<close>: with \<open>force\<close> the handlers of the root
      logger are removed first; a root logger that has handlers is left alone\<close>
  "basicConfig level format_str force s =
     (let s1 = (if force then s\<lparr>root_handlers := []\<rparr> else s)
      in if root_handlers s1 = []
         then s1\<lparr>root_handlers := [StreamHandler format_str], root_level := level\<rparr>
         else s1)"

definition setLevel :: "string \<Rightarrow> log_level \<Rightarrow> logging_state \<Rightarrow> logging_state" where
  \<comment> \<open>\<open>logging.getLogger(name).setLevel(level)\<close>\<close>
  "setLevel name level s = s\<lparr>logger_level := (logger_level s)(name := level)\<rparr>"

definition debug_format :: string where
  "debug_format =
     ''%(asctime)s - %(name)s - %(levelname)s - [%(filename)s:%(lineno)d] - %(message)s''"

definition standard_format :: string where
  "standard_format = ''%(asctime)s - %(name)s - %(levelname)s - %(message)s''"

definition setup_logging :: "bool \<Rightarrow> logging_state \<Rightarrow> logging_state" where
  "setup_logging debug s =
     (let level = (if debug then DEBUG else INFO);
          format_str = (if debug then debug_format else standard_format);
          s1 = basicConfig level format_str True s
      in if debug
         then setLevel ''scrapy'' INFO (setLevel ''scrapit'' DEBUG s1)
         else setLevel ''scrapy'' WARNING (setLevel ''scrapit'' INFO s1))"

section \<open>Service assembly (\<open>create_app\<close>)\<close>

record cors_middleware =
  allow_origins :: "string list"
  allow_credentials :: bool
  allow_methods :: "string list"
  allow_headers :: "string list"

text \<open>The keyword arguments of the route factory \<open>create_router\<close>.\<close>

record router_args =
  arg_project_path :: "string option"
  arg_timeout :: "pyfloat option"
  arg_additional_settings :: "settings_dict option"
  arg_debug :: bool
  arg_include_logs :: bool

record 'r fastapi =
  title :: string
  description :: string
  version :: string
  middleware :: "cors_middleware list"
  routers :: "'r list"

definition FastAPI :: "string \<Rightarrow> string \<Rightarrow> string \<Rightarrow> 'r fastapi" where
  "FastAPI t d v =
     \<lparr>title = t, description = d, version = v, middleware = [], routers = []\<rparr>"

definition add_middleware :: "cors_middleware \<Rightarrow> 'r fastapi \<Rightarrow> 'r fastapi" where
  "add_middleware m app = app\<lparr>middleware := m # middleware app\<rparr>"

definition include_router :: "'r \<Rightarrow> 'r fastapi \<Rightarrow> 'r fastapi" where
  "include_router r app = app\<lparr>routers := routers app @ [r]\<rparr>"

text \<open>
  The route factory is a collaborator outside this file, taken as a parameter. The
  second component of the result lists the calls made to it, in order.
\<close>

definition create_app ::
  "(router_args \<Rightarrow> 'r) \<Rightarrow> string option \<Rightarrow> pyfloat option \<Rightarrow> settings_dict option \<Rightarrow>
   bool \<Rightarrow> bool \<Rightarrow> 'r fastapi \<times> router_args list" where
  "create_app create_router project_path timeout additional_settings debug include_logs =
     (let app0 = FastAPI ''ScrapyRT-Compatible API''
                   ''FastAPI wrapper for Scrapy spiders with ScrapyRT compatibility''
                   ''1.0.0'';
          app1 = add_middleware
                   \<lparr>allow_origins = [''*''], allow_credentials = True,
                    allow_methods = [''*''], allow_headers = [''*'']\<rparr> app0;
          args = \<lparr>arg_project_path = project_path, arg_timeout = timeout,
                  arg_additional_settings = additional_settings,
                  arg_debug = debug, arg_include_logs = include_logs\<rparr>;
          router = create_router args
      in (include_router router app1, [args]))"

section \<open>The command (\<open>run\<close>)\<close>

record os_env =
  getcwd :: string
  isdir :: "string \<Rightarrow> bool"

datatype outcome = Returned | Exit nat | Raised exn

datatype 'r event =
    Log log_level "piece list"
  | RouterFactoryCall router_args
  | UvicornRun "'r fastapi" string int string

record 'r run_result =
  outcome :: outcome
  events :: "'r event list"
  logging :: logging_state

definition log_event :: "log_call \<Rightarrow> 'r event" where
  "log_event c = Log (fst c) (snd c)"

definition float_truthy :: "pyfloat \<Rightarrow> bool" where
  \<comment> \<open>both zeros are false, everything else is true\<close>
  "float_truthy x = (case x of Finite neg q \<Rightarrow> q \<noteq> 0 | _ \<Rightarrow> True)"

definition resolve_project_path :: "os_env \<Rightarrow> string option \<Rightarrow> string" where
  \<comment> \<open>line 151, \<open>project or os.getcwd()\<close>: an empty \<open>project\<close> counts as absent\<close>
  "resolve_project_path os project =
     (case project of None \<Rightarrow> getcwd os | Some p \<Rightarrow> if p = [] then getcwd os else p)"

definition startup_info ::
  "string \<Rightarrow> int \<Rightarrow> string \<Rightarrow> bool \<Rightarrow> bool \<Rightarrow> settings_dict \<Rightarrow> pyfloat option \<Rightarrow> log_call list" where
  \<comment> \<open>lines 156 to 164\<close>
  "startup_info host port project_path debug include_logs additional_settings timeout =
     [(INFO, [Lit ''Starting ScrapyRT-compatible API server'']),
      (INFO, [Lit ''Host: '', PStr host, Lit '', Port: '', PInt port]),
      (INFO, [Lit ''Project path: '', PStr project_path]),
      (INFO, [Lit ''Debug mode: '', PBool debug]),
      (INFO, [Lit ''Include logs in responses: '', PBool include_logs])] @
     (if additional_settings \<noteq> []
      then [(INFO, [Lit ''Additional settings: '', PDict additional_settings])] else []) @
     (case timeout of
        None \<Rightarrow> []
      | Some t \<Rightarrow> if float_truthy t
                  then [(INFO, [Lit ''Default timeout: '', PFloat t, Lit '' seconds''])]
                  else [])"

text \<open>
  \<open>run\<close> takes the file system and the route factory as parameters and the logging
  configuration it finds; it returns how the command ended, the calls it made to the
  logger, the route factory and the server, and the logging configuration it leaves.
  An exception that nothing catches ends the command where it is raised.
\<close>

definition run ::
  "os_env \<Rightarrow> (router_args \<Rightarrow> 'r) \<Rightarrow> logging_state \<Rightarrow>
   int \<Rightarrow> string \<Rightarrow> string option \<Rightarrow> string option \<Rightarrow> pyfloat option \<Rightarrow> bool \<Rightarrow> bool \<Rightarrow>
   'r run_result" where
  "run os create_router L0 port host project settings timeout debug include_logs =
     (let L = setup_logging debug L0
      in case parse_settings settings of
           (Inl e, w) \<Rightarrow> \<lparr>outcome = Raised e, events = map log_event w, logging = L\<rparr>
         | (Inr additional_settings, w) \<Rightarrow>
             let project_path = resolve_project_path os project
             in if \<not> isdir os project_path
                then \<lparr>outcome = Exit 1,
                      events = map log_event w @
                        [Log ERROR [Lit ''Project path does not exist: '', PStr project_path]],
                      logging = L\<rparr>
                else (case create_app create_router (Some project_path) timeout
                             (Some additional_settings) debug include_logs of
                        (app, calls) \<Rightarrow>
                          \<lparr>outcome = Returned,
                           events = map log_event w @
                             map log_event (startup_info host port project_path debug
                                              include_logs additional_settings timeout) @
                             map RouterFactoryCall calls @
                             [UvicornRun app host port (if debug then ''debug'' else ''info'')],
                           logging = L\<rparr>))"

definition exit_status :: "outcome \<Rightarrow> nat" where
  \<comment> \<open>the status of the process: 0 when the command returns, the code of \<open>typer.Exit\<close>,
      and 1 when an exception ends it\<close>
  "exit_status out = (case out of Returned \<Rightarrow> 0 | Exit n \<Rightarrow> n | Raised e \<Rightarrow> 1)"

section \<open>Notions used to state the properties\<close>

fun py_join :: "char \<Rightarrow> string list \<Rightarrow> string" where
  \<comment> \<open>\<open>sep.join(parts)\<close>\<close>
  "py_join sep [] = []"
| "py_join sep [w] = w"
| "py_join sep (w # ws) = w @ sep # py_join sep ws"

definition is_valid :: "string \<Rightarrow> bool" where
  \<comment> \<open>an entry is valid when it has a separator\<close>
  "is_valid e = (CHR ''='' \<in> set e)"

definition entry_key :: "string \<Rightarrow> string" where
  \<comment> \<open>the trimmed key of an entry: what stands before its first separator\<close>
  "entry_key e = py_strip (takeWhile (\<lambda>c. c \<noteq> CHR ''='') e)"

definition entry_value :: "string \<Rightarrow> string" where
  \<comment> \<open>the value of an entry: what stands after its first separator\<close>
  "entry_value e = tl (dropWhile (\<lambda>c. c \<noteq> CHR ''='') e)"

definition invalid_warning :: "string \<Rightarrow> log_call" where
  "invalid_warning e = (WARNING, [Lit ''Ignoring invalid setting format: '', PStr e])"

definition is_log :: "'r event \<Rightarrow> bool" where
  "is_log ev = (case ev of Log l m \<Rightarrow> True | _ \<Rightarrow> False)"

section \<open>Evaluation rules\<close>

lemmas char_classes =
  code_point_def py_isspace_def c_isspace_def is_decimal_def is_digit_char_def
  is_upper_def lower_char_def ascii_lower_def

lemmas builtins =
  py_lower_def py_strip_def py_isdigit_def py_split1_def all_ascii_def to_ascii_def
  c_strip_def take_sign_def py_int_def int_max_str_digits_def scale10_def to_double_def
  round_half_even_def pow2_def bit_length.simps parse_decimal_def
  parse_inf_or_nan_def py_float_def Let_def

lemmas coercion =
  infer_value_def parse_setting_def settings_list_def parse_settings_def

section \<open>Splitting and joining\<close>

lemma py_split_not_Nil: "py_split sep s \<noteq> []"
  by (induction s) (auto split: list.splits)

lemma py_join_Cons: "ws \<noteq> [] \<Longrightarrow> py_join sep (w # ws) = w @ sep # py_join sep ws"
  by (cases ws) auto

lemma py_join_split: "py_join sep (py_split sep s) = s"
proof (induction s)
  case Nil
  show ?case by simp
next
  case (Cons c cs)
  obtain w ws where ws: "py_split sep cs = w # ws"
    using py_split_not_Nil [of sep cs] by (cases "py_split sep cs") auto
  show ?case
  proof (cases "c = sep")
    case True
    then show ?thesis using Cons ws by (simp add: py_join_Cons)
  next
    case False
    then show ?thesis using Cons ws by (cases ws) auto
  qed
qed

lemma py_split_no_sep: "e \<in> set (py_split sep s) \<Longrightarrow> sep \<notin> set e"
  by (induction s arbitrary: e) (auto split: if_splits list.splits)

lemma length_py_split: "length (py_split sep s) = Suc (count_list s sep)"
  by (induction s) (auto split: list.splits simp: py_split_not_Nil)

lemma py_split_no_sep_id: "sep \<notin> set s \<Longrightarrow> py_split sep s = [s]"
  by (induction s) auto

lemma py_split1_first:
  assumes "sep \<in> set e"
  shows "\<exists>k v. py_split1 sep e = [k, v] \<and> e = k @ sep # v \<and> sep \<notin> set k"
proof -
  let ?k = "takeWhile (\<lambda>c. c \<noteq> sep) e" and ?r = "dropWhile (\<lambda>c. c \<noteq> sep) e"
  have "?r \<noteq> []" using assms by (simp add: dropWhile_eq_Nil_conv)
  moreover have "hd ?r = sep" using \<open>?r \<noteq> []\<close> hd_dropWhile [of "\<lambda>c. c \<noteq> sep" e] by auto
  ultimately have "?r = sep # tl ?r" by (cases ?r) auto
  then have "e = ?k @ sep # tl ?r" using takeWhile_dropWhile_id [of "\<lambda>c. c \<noteq> sep" e] by simp
  moreover have "sep \<notin> set ?k" by (auto dest: set_takeWhileD)
  ultimately show ?thesis using assms by (auto simp: py_split1_def)
qed

lemma py_split1_app: "sep \<notin> set k \<Longrightarrow> py_split1 sep (k @ sep # v) = [k, v]"
  by (induction k) (auto simp: py_split1_def)

lemma parse_setting_entry:
  "CHR ''='' \<notin> set k \<Longrightarrow>
   parse_setting (k @ CHR ''='' # v) d =
     (case infer_value v of Inl e \<Rightarrow> (Inl e, []) | Inr x \<Rightarrow> (Inr (dict_set (py_strip k) x d), []))"
  by (simp add: parse_setting_def py_split1_app)

section \<open>The dictionary\<close>

lemma map_of_dict_set: "map_of (dict_set k v d) = (map_of d)(k \<mapsto> v)"
  by (induction d) (auto simp: fun_eq_iff)

lemma dict_set_keys: "fst ` set (dict_set k v d) = insert k (fst ` set d)"
proof -
  have "fst ` set (dict_set k v d) = dom (map_of (dict_set k v d))"
    by (simp add: dom_map_of_conv_image_fst)
  also have "\<dots> = insert k (dom (map_of d))"
    by (simp add: map_of_dict_set)
  finally show ?thesis
    by (simp add: dom_map_of_conv_image_fst)
qed

lemma distinct_dict_set: "distinct (map fst d) \<Longrightarrow> distinct (map fst (dict_set k v d))"
  by (induction d) (auto simp: dict_set_keys)

section \<open>The loop over the entries\<close>

lemma parse_setting_valid:
  "is_valid e \<Longrightarrow> parse_setting e d =
     (case infer_value (entry_value e) of
        Inl x \<Rightarrow> (Inl x, [])
      | Inr v \<Rightarrow> (Inr (dict_set (entry_key e) v d), []))"
  by (simp add: parse_setting_def py_split1_def entry_key_def entry_value_def is_valid_def
      split: sum.split)

lemma parse_setting_invalid:
  "\<not> is_valid e \<Longrightarrow> parse_setting e d = (Inr d, [invalid_warning e])"
  by (simp add: parse_setting_def is_valid_def invalid_warning_def)

lemma parse_entries_warnings:
  "parse_entries es d = (Inr m, w) \<Longrightarrow> w = map invalid_warning (filter (\<lambda>e. \<not> is_valid e) es)"
proof (induction es arbitrary: d w)
  case Nil
  then show ?case by simp
next
  case (Cons e es)
  show ?case
  proof (cases "is_valid e")
    case True
    then show ?thesis using Cons.prems Cons.IH
      by (auto simp: parse_setting_valid split: sum.splits prod.splits)
  next
    case False
    then show ?thesis using Cons.prems Cons.IH
      by (auto simp: parse_setting_invalid split: sum.splits prod.splits)
  qed
qed

lemma parse_entries_distinct:
  "parse_entries es d = (Inr m, w) \<Longrightarrow> distinct (map fst d) \<Longrightarrow> distinct (map fst m)"
proof (induction es arbitrary: d w)
  case Nil
  then show ?case by simp
next
  case (Cons e es)
  show ?case
  proof (cases "is_valid e")
    case True
    then show ?thesis using Cons.prems Cons.IH
      by (auto simp: parse_setting_valid distinct_dict_set split: sum.splits prod.splits)
  next
    case False
    then show ?thesis using Cons.prems Cons.IH
      by (auto simp: parse_setting_invalid split: sum.splits prod.splits)
  qed
qed

lemma parse_entries_lookup:
  "parse_entries es d = (Inr m, w) \<Longrightarrow>
   (if filter (\<lambda>e. is_valid e \<and> entry_key e = k) es = []
    then map_of m k = map_of d k
    else \<exists>x. map_of m k = Some x \<and>
           infer_value (entry_value (last (filter (\<lambda>e. is_valid e \<and> entry_key e = k) es))) = Inr x)"
proof (induction es arbitrary: d w)
  case Nil
  then show ?case by simp
next
  case (Cons e es)
  let ?P = "\<lambda>e. is_valid e \<and> entry_key e = k"
  show ?case
  proof (cases "is_valid e")
    case False
    then have "parse_entries es d = (Inr m, snd (parse_entries es d))"
      using Cons.prems by (auto simp: parse_setting_invalid split: prod.splits)
    from Cons.IH [OF this] False show ?thesis by simp
  next
    case True
    then obtain v where v: "infer_value (entry_value e) = Inr v"
      using Cons.prems by (auto simp: parse_setting_valid split: sum.splits)
    then have rest: "parse_entries es (dict_set (entry_key e) v d) = (Inr m, w)"
      using Cons.prems True by (auto simp: parse_setting_valid split: prod.splits)
    note IH = Cons.IH [OF rest]
    show ?thesis
    proof (cases "filter ?P es = []")
      case False
      then show ?thesis using IH by simp
    next
      case Nil: True
      then have "map_of m k = map_of (dict_set (entry_key e) v d) k"
        using IH by simp
      then show ?thesis using Nil True v
        by (cases "entry_key e = k") (auto simp: map_of_dict_set)
    qed
  qed
qed

lemma parse_entries_succeeds:
  "\<forall>e \<in> set es. is_valid e \<longrightarrow> (\<exists>x. infer_value (entry_value e) = Inr x) \<Longrightarrow>
   \<exists>m w. parse_entries es d = (Inr m, w)"
proof (induction es arbitrary: d)
  case Nil
  show ?case by simp
next
  case (Cons e es)
  show ?case
  proof (cases "is_valid e")
    case True
    then obtain x where x: "infer_value (entry_value e) = Inr x" using Cons.prems by auto
    obtain m w where "parse_entries es (dict_set (entry_key e) x d) = (Inr m, w)"
      using Cons.IH [of "dict_set (entry_key e) x d"] Cons.prems by auto
    then show ?thesis using True x by (simp add: parse_setting_valid)
  next
    case False
    obtain m w where "parse_entries es d = (Inr m, w)"
      using Cons.IH [of d] Cons.prems by auto
    then show ?thesis using False by (simp add: parse_setting_invalid)
  qed
qed

lemma parse_entries_valid_converted:
  "parse_entries es d = (Inr m, w) \<Longrightarrow> e \<in> set es \<Longrightarrow> is_valid e \<Longrightarrow>
   \<exists>x. infer_value (entry_value e) = Inr x"
proof (induction es arbitrary: d w)
  case Nil
  then show ?case by simp
next
  case (Cons a es)
  show ?case
  proof (cases "is_valid a")
    case True
    then show ?thesis using Cons.prems Cons.IH
      by (auto simp: parse_setting_valid split: sum.splits prod.splits)
  next
    case False
    then show ?thesis using Cons.prems Cons.IH
      by (auto simp: parse_setting_invalid split: sum.splits prod.splits)
  qed
qed

lemma key_once:
  "distinct (map fst m) \<Longrightarrow> map_of m k = Some x \<Longrightarrow> length (filter (\<lambda>p. fst p = k) m) = 1"
proof (induction m)
  case Nil
  then show ?case by simp
next
  case (Cons p m)
  show ?case
  proof (cases "fst p = k")
    case True
    then have "k \<notin> fst ` set m" using Cons.prems by auto
    then have "filter (\<lambda>p. fst p = k) m = []" by (auto simp: filter_empty_conv)
    then show ?thesis using True by simp
  next
    case False
    then show ?thesis using Cons by (cases p) auto
  qed
qed

section \<open>Integer conversion of all-digit values\<close>

text \<open>
  A value passes \<open>isdigit\<close> when all its characters are digits, superscripts included; the
  conversion to an integer takes decimal digits only, and no more of them than its
  limit. The lemmas below settle what \<open>int\<close> returns on a value that passed \<open>isdigit\<close>,
  and from that the whole of the type inference.
\<close>

lemma is_decimal_facts:
  "is_decimal c \<Longrightarrow> c \<noteq> CHR ''_'' \<and> c \<noteq> CHR ''-'' \<and> c \<noteq> CHR ''+'' \<and> \<not> c_isspace c \<and> code_point c < 127"
  by (auto simp: is_decimal_def c_isspace_def code_point_def)

lemma strip_ends:
  assumes "s \<noteq> []" "\<not> P (hd s)" "\<not> P (last s)"
  shows "rev (dropWhile P (rev (dropWhile P s))) = s"
proof -
  have "dropWhile P s = s" using assms by (cases s) auto
  moreover have "dropWhile P (rev s) = rev s"
    using assms by (cases "rev s") (auto simp: last_rev [symmetric] hd_rev)
  ultimately show ?thesis by simp
qed

lemma strip_underscores_plain:
  "CHR ''_'' \<notin> set s \<Longrightarrow> prev \<noteq> CHR ''_'' \<Longrightarrow> strip_underscores prev s = Some s"
  by (induction s arbitrary: prev) auto

lemma py_int_plain:
  assumes "s \<noteq> []" "CHR ''_'' \<notin> set s" "\<not> c_isspace (hd s)" "\<not> c_isspace (last s)"
    "hd s \<noteq> CHR ''-''" "hd s \<noteq> CHR ''+''" "to_ascii t = s"
  shows "py_int t =
           (if list_all is_decimal s \<and> length s \<le> int_max_str_digits
            then Inr (int (digits_val 0 s)) else Inl ValueError)"
proof -
  have "c_strip s = s" using assms by (simp add: c_strip_def strip_ends)
  moreover have "take_sign s = (False, s)" using assms by (cases s) (auto simp: take_sign_def)
  moreover have "strip_underscores (CHR 0x00) s = Some s" using assms by (simp add: strip_underscores_plain)
  ultimately show ?thesis using assms by (simp add: py_int_def)
qed

lemma to_ascii_decimal: "list_all is_decimal s \<Longrightarrow> to_ascii s = s"
proof -
  assume a: "list_all is_decimal s"
  have "transform_chars s = s" using a by (induction s) (auto simp: is_decimal_facts)
  then show ?thesis by (simp add: to_ascii_def)
qed

lemma py_int_decimal:
  assumes "s \<noteq> []" "list_all is_decimal s"
  shows "py_int s =
           (if length s \<le> int_max_str_digits then Inr (int (digits_val 0 s)) else Inl ValueError)"
proof -
  have h: "is_decimal (hd s)" "is_decimal (last s)" using assms by (auto simp: list_all_iff)
  have "CHR ''_'' \<notin> set s" using assms is_decimal_facts by (auto simp: list_all_iff)
  then show ?thesis
    using py_int_plain [of s s] assms h is_decimal_facts to_ascii_decimal by auto
qed

lemma transform_chars_digits:
  "list_all is_digit_char s \<Longrightarrow> \<not> list_all is_decimal s \<Longrightarrow>
   \<exists>ds. list_all is_decimal ds \<and> transform_chars s = ds @ ''?''"
proof (induction s)
  case Nil
  then show ?case by simp
next
  case (Cons c s)
  show ?case
  proof (cases "is_decimal c")
    case True
    then obtain ds where "list_all is_decimal ds" "transform_chars s = ds @ ''?''"
      using Cons by auto
    then have "list_all is_decimal (c # ds) \<and> transform_chars (c # s) = (c # ds) @ ''?''"
      using True by (simp add: is_decimal_facts)
    then show ?thesis by blast
  next
    case False
    then have "code_point c \<in> {178, 179, 185}" using Cons.prems by (simp add: is_digit_char_def)
    then have "transform_chars (c # s) = [] @ ''?''"
      by (auto simp: py_isspace_def)
    moreover have "list_all is_decimal ([] :: string)" by simp
    ultimately show ?thesis by blast
  qed
qed

lemma not_all_ascii: "list_all is_digit_char s \<Longrightarrow> \<not> list_all is_decimal s \<Longrightarrow> \<not> all_ascii s"
  by (induction s) (auto simp: all_ascii_def is_digit_char_def)

lemma py_int_superscript:
  assumes "list_all is_digit_char s" "\<not> list_all is_decimal s"
  shows "py_int s = Inl ValueError"
proof -
  obtain ds where ds: "list_all is_decimal ds" "transform_chars s = ds @ ''?''"
    using transform_chars_digits [OF assms] by blast
  let ?t = "ds @ ''?''"
  have t: "to_ascii s = ?t" using ds not_all_ascii [OF assms] by (simp add: to_ascii_def)
  have q: "\<not> is_decimal (CHR ''?'')" "\<not> c_isspace (CHR ''?'')"
    by (simp_all add: is_decimal_def c_isspace_def code_point_def)
  have hd: "hd ?t = CHR ''?'' \<or> is_decimal (hd ?t)"
    using ds(1) by (cases ds) auto
  have "CHR ''_'' \<notin> set ?t" using ds(1) is_decimal_facts by (auto simp: list_all_iff)
  moreover have "\<not> c_isspace (hd ?t)" "hd ?t \<noteq> CHR ''-''" "hd ?t \<noteq> CHR ''+''"
    using hd q is_decimal_facts by auto
  moreover have "\<not> c_isspace (last ?t)" using q by simp
  moreover have "\<not> list_all is_decimal ?t" using q by simp
  ultimately have "py_int s =
      (if list_all is_decimal ?t \<and> length ?t \<le> int_max_str_digits
       then Inr (int (digits_val 0 ?t)) else Inl ValueError)"
    using t by (intro py_int_plain) simp_all
  then show ?thesis using q(1) by simp
qed

lemma py_int_isdigit:
  "py_isdigit s \<Longrightarrow>
   py_int s =
     (if list_all is_decimal s \<and> length s \<le> int_max_str_digits
      then Inr (int (digits_val 0 s)) else Inl ValueError)"
  by (cases "list_all is_decimal s") (simp_all add: py_isdigit_def py_int_decimal py_int_superscript)

lemma lower_digit_char: "is_digit_char c \<Longrightarrow> lower_char c = c"
  by (auto simp: lower_char_def is_upper_def is_digit_char_def is_decimal_def)

lemma py_lower_isdigit: "list_all is_digit_char s \<Longrightarrow> py_lower s = s"
  by (induction s) (auto simp: py_lower_def lower_digit_char)

lemma isdigit_not_bool: "py_isdigit s \<Longrightarrow> py_lower s \<noteq> ''true'' \<and> py_lower s \<noteq> ''false''"
  by (auto simp: py_isdigit_def py_lower_isdigit is_digit_char_def is_decimal_def code_point_def)

lemma infer_value_precedence:
  "infer_value v =
     (if py_lower v = ''true'' then Inr (VBool True)
      else if py_lower v = ''false'' then Inr (VBool False)
      else if py_isdigit v
      then (if list_all is_decimal v \<and> length v \<le> int_max_str_digits
            then Inr (VInt (int (digits_val 0 v))) else Inl ValueError)
      else (case py_float v of Inr x \<Rightarrow> Inr (VFloat x) | Inl e \<Rightarrow> Inr (VStr v)))"
  by (auto simp: infer_value_def py_int_isdigit split: sum.splits exn.splits)

lemma infer_value_raises_iff:
  "(\<exists>e. infer_value v = Inl e) \<longleftrightarrow>
   py_isdigit v \<and> (\<not> list_all is_decimal v \<or> int_max_str_digits < length v)"
  using isdigit_not_bool [of v]
  by (auto simp: infer_value_precedence split: sum.splits)

section \<open>Type inference precedence\<close>

text \<open>
  Claim C1. Every entry with a separator gets a boolean when its value is \<open>true\<close> or
  \<open>false\<close> in any letter case, else an integer when the value is all-digit, else a float
  when the value reads as a floating-point literal, else the value as a string. The
  code does not do this for the value made of the superscript two (U+00B2): the value
  is all-digit for \<open>isdigit\<close>, the conversion to an integer raises \<open>ValueError\<close> outside
  the \<open>try\<close>, and no value is stored. Lemma \<open>infer_value_precedence\<close> above gives the
  precedence the code follows on all values, with that branch; the example of the claim
  is \<open>precedence_example\<close> below.
\<close>

theorem superscript_digit_not_converted:
  "py_isdigit [CHR 0xB2] \<and> infer_value [CHR 0xB2] = Inl ValueError \<and>
   parse_settings (Some (''k='' @ [CHR 0xB2])) = (Inl ValueError, [])"
  by (simp add: char_classes builtins coercion)

lemma precedence_example:
  "parse_settings (Some ''k1=true,k2=3,k3=2.5,k4=hello'') =
     (Inr [(''k1'', VBool True), (''k2'', VInt 3), (''k3'', VFloat (Finite False (5 / 2))),
           (''k4'', VStr ''hello'')], [])"
  by (simp add: char_classes builtins coercion)

section \<open>Exceptions in the settings coercion\<close>

text \<open>
  Claim C4. For every settings string the coercion returns a mapping, and no value makes
  an exception leave it. The code does not do this: on an entry whose value is all-digit
  for \<open>isdigit\<close> and not decimal, \<open>int\<close> raises \<open>ValueError\<close> where nothing catches it, and
  the entries before and after it are lost with it. The same happens on a value of more
  decimal digits than the limit of the conversion (\<open>long_digit_string_raises\<close> below). By
  \<open>infer_value_raises_iff\<close> these are the only values on which the inference raises.
\<close>

theorem parse_aborts_on_superscript:
  "parse_settings (Some (''a=1,k='' @ [CHR 0xB2] @ '',c=2'')) = (Inl ValueError, [])"
  by (simp add: char_classes builtins coercion)

lemma long_digit_string_raises:
  "infer_value (replicate 4301 (CHR ''1'')) = Inl ValueError"
proof -
  let ?v = "replicate 4301 (CHR ''1'')"
  have d: "py_isdigit ?v"
    by (simp add: py_isdigit_def list_all_iff char_classes)
  show ?thesis
    using d isdigit_not_bool [OF d]
    by (simp add: infer_value_precedence int_max_str_digits_def)
qed

section \<open>Malformed entries\<close>

text \<open>
  Claim C3. In a settings string with an entry that has no separator, that entry is
  dropped with a warning that names it, every other entry is converted and stored, and
  no fatal error occurs. The code does not do this when an entry beside the malformed one
  has an all-digit value that is not decimal: the warning is logged, then \<open>run\<close> ends with
  \<open>ValueError\<close> and stores nothing. The example of the claim is \<open>malformed_example\<close>
  below; \<open>parse_entries_warnings\<close> and \<open>parse_entries_lookup\<close> above give the general
  statement when every value converts.
\<close>

theorem entry_after_malformed_aborts:
  "parse_settings (Some (''a=1,bad,c='' @ [CHR 0xB2])) =
     (Inl ValueError, [(WARNING, [Lit ''Ignoring invalid setting format: '', PStr ''bad''])])"
  by (simp add: char_classes builtins coercion)

lemma malformed_example:
  "parse_settings (Some ''a=1,bad,c=2'') =
     (Inr [(''a'', VInt 1), (''c'', VInt 2)],
      [(WARNING, [Lit ''Ignoring invalid setting format: '', PStr ''bad''])])"
  by (simp add: char_classes builtins coercion)

section \<open>Fatal startup errors\<close>

text \<open>
  Claim C2. A project path that is not a directory ends the command with exit code 1
  before the application is assembled and before the server runs, and nothing else in the
  configuration ends the start-up fatally. The first part holds
  (\<open>missing_project_path_exits\<close> below). The second part fails: a settings value that is
  all-digit and not decimal ends \<open>run\<close> with \<open>ValueError\<close>, whatever the project path, with
  no call to the route factory and none to the server.
\<close>

theorem settings_value_aborts_startup:
  "run os create_router L port host project (Some (''k='' @ [CHR 0xB2])) timeout debug include_logs =
     \<lparr>outcome = Raised ValueError, events = [], logging = setup_logging debug L\<rparr> \<and>
   exit_status (Raised ValueError) = 1"
  by (simp add: run_def exit_status_def char_classes builtins coercion)

lemma missing_project_path_exits:
  assumes "\<not> isdir os (resolve_project_path os project)"
  shows "exit_status (outcome (run os create_router L port host project settings timeout debug include_logs)) = 1"
    and "list_all is_log (events (run os create_router L port host project settings timeout debug include_logs))"
    and "fst (parse_settings settings) = Inr d \<Longrightarrow>
          outcome (run os create_router L port host project settings timeout debug include_logs) = Exit 1"
  using assms
  by (auto simp: run_def exit_status_def Let_def is_log_def log_event_def list_all_iff
      split: prod.splits sum.splits)

text \<open>
  With settings that convert and a project path that is a directory, \<open>run\<close> returns
  after exactly two calls besides logging, in this order: the route factory, with the
  resolved path, the timeout, the settings, the debug flag and the log flag, and then the
  server.
\<close>

lemma run_assembles_once:
  assumes "parse_settings settings = (Inr a, w)"
    and "isdir os (resolve_project_path os project)"
  shows "outcome (run os create_router L port host project settings timeout debug include_logs) = Returned"
    and "filter (\<lambda>ev. \<not> is_log ev)
           (events (run os create_router L port host project settings timeout debug include_logs)) =
         [RouterFactoryCall
            \<lparr>arg_project_path = Some (resolve_project_path os project), arg_timeout = timeout,
             arg_additional_settings = Some a, arg_debug = debug, arg_include_logs = include_logs\<rparr>,
          UvicornRun
            (fst (create_app create_router (Some (resolve_project_path os project)) timeout (Some a)
                    debug include_logs))
            host port (if debug then ''debug'' else ''info'')]"
  using assms
  by (simp_all add: run_def Let_def create_app_def is_log_def log_event_def filter_empty_conv
      split: prod.splits)

section \<open>Trimming of keys and values\<close>

lemma dict_set_member:
  "(k, x) \<in> set (dict_set k' v d) \<Longrightarrow> (k, x) = (k', v) \<or> (k, x) \<in> set d"
  by (induction d) (auto split: if_splits)

lemma parse_entries_origin:
  "parse_entries es d = (Inr m, w) \<Longrightarrow> (k, x) \<in> set m \<Longrightarrow>
   (k, x) \<in> set d \<or>
   (\<exists>e \<in> set es. is_valid e \<and> k = entry_key e \<and> infer_value (entry_value e) = Inr x)"
proof (induction es arbitrary: d w)
  case Nil
  then show ?case by simp
next
  case (Cons e es)
  show ?case
  proof (cases "is_valid e")
    case False
    then have "parse_entries es d = (Inr m, snd (parse_entries es d))"
      using Cons.prems(1) by (auto simp: parse_setting_invalid split: prod.splits)
    from Cons.IH [OF this Cons.prems(2)] show ?thesis by auto
  next
    case True
    then obtain v where v: "infer_value (entry_value e) = Inr v"
      using Cons.prems(1) by (auto simp: parse_setting_valid split: sum.splits)
    then have "parse_entries es (dict_set (entry_key e) v d) = (Inr m, w)"
      using Cons.prems(1) True by (auto simp: parse_setting_valid split: prod.splits)
    from Cons.IH [OF this Cons.prems(2)] show ?thesis
      using True v dict_set_member [of k x "entry_key e" v d] by auto
  qed
qed

lemma parse_entries_key_stored:
  assumes "parse_entries es d = (Inr m, w)" and "e \<in> set es" and "is_valid e"
  shows "entry_key e \<in> fst ` set m"
proof -
  have "filter (\<lambda>a. is_valid a \<and> entry_key a = entry_key e) es \<noteq> []"
    using assms(2,3) by (auto simp: filter_empty_conv)
  then obtain x where "map_of m (entry_key e) = Some x"
    using parse_entries_lookup [OF assms(1), of "entry_key e"] by (auto split: if_splits)
  then show ?thesis
    by (metis map_of_SomeD fst_conv image_eqI)
qed

lemma infer_value_as_written:
  assumes "infer_value v = Inr x"
  shows "(\<forall>b. x = VBool b \<longrightarrow> py_lower v = (if b then ''true'' else ''false'')) \<and>
         (\<forall>n. x = VInt n \<longrightarrow> v \<noteq> [] \<and> list_all is_decimal v \<and> n = int (digits_val 0 v)) \<and>
         (\<forall>f. x = VFloat f \<longrightarrow> py_float v = Inr f \<and> \<not> py_isdigit v) \<and>
         (\<forall>u. x = VStr u \<longrightarrow> u = v)"
  using assms
  by (auto simp: infer_value_precedence py_isdigit_def split: if_splits sum.splits)

lemma py_strip_spec:
  "\<exists>a b. s = a @ py_strip s @ b \<and> list_all py_isspace a \<and> list_all py_isspace b \<and>
         (py_strip s = [] \<or> \<not> py_isspace (hd (py_strip s)) \<and> \<not> py_isspace (last (py_strip s)))"
proof -
  let ?t = "dropWhile py_isspace s"
  let ?a = "takeWhile py_isspace s"
  let ?b = "rev (takeWhile py_isspace (rev ?t))"
  have 1: "s = ?a @ ?t" by simp
  have "rev ?t = takeWhile py_isspace (rev ?t) @ dropWhile py_isspace (rev ?t)" by simp
  then have "?t = rev (dropWhile py_isspace (rev ?t)) @ ?b"
    by (metis rev_append rev_rev_ident)
  then have 2: "?t = py_strip s @ ?b" by (simp add: py_strip_def)
  have 3: "list_all py_isspace ?a" "list_all py_isspace ?b"
    by (auto simp: list_all_iff dest: set_takeWhileD)
  have 4: "py_strip s \<noteq> [] \<Longrightarrow> \<not> py_isspace (last (py_strip s))"
  proof -
    assume n: "py_strip s \<noteq> []"
    then have d: "dropWhile py_isspace (rev ?t) \<noteq> []" by (simp add: py_strip_def)
    then have "\<not> py_isspace (hd (dropWhile py_isspace (rev ?t)))" by (rule hd_dropWhile)
    moreover have "last (py_strip s) = hd (dropWhile py_isspace (rev ?t))"
      using d by (simp add: py_strip_def last_rev)
    ultimately show ?thesis by simp
  qed
  have 5: "py_strip s \<noteq> [] \<Longrightarrow> \<not> py_isspace (hd (py_strip s))"
  proof -
    assume n: "py_strip s \<noteq> []"
    then have "?t \<noteq> []" using 2 by (metis Nil_is_append_conv)
    then have "\<not> py_isspace (hd ?t)" by (rule hd_dropWhile)
    moreover have "hd ?t = hd (py_strip s)" using 2 n by (metis hd_append2)
    ultimately show ?thesis by simp
  qed
  have "s = ?a @ py_strip s @ ?b" using 1 2 by metis
  then show ?thesis using 3 4 5 by blast
qed

text \<open>
  Claim C5 has the value trimmed before the inference. The code trims the key only: a
  padded \<open>true\<close> stays a string, with its blanks, while the trimmed value is a boolean,
  and padded digits become a float, since only the float conversion skips the blanks,
  while the trimmed value is an integer.
\<close>

theorem padded_value_inferred_differently:
  "infer_value '' true'' = Inr (VStr '' true'') \<and>
   infer_value (py_strip '' true'') = Inr (VBool True) \<and>
   infer_value '' 3'' = Inr (VFloat (Finite False 3)) \<and>
   infer_value (py_strip '' 3'') = Inr (VInt 3) \<and>
   parse_settings (Some ''k= true'') = (Inr [(''k'', VStr '' true'')], [])"
  by (simp add: char_classes builtins coercion)

text \<open>
  Claim C5, amended. Whenever the coercion of a settings string returns a mapping: the
  key of every entry with a separator is in the mapping without its surrounding
  whitespace (it is a middle part of what stands before the separator, with only
  whitespace before and after it and none at its own ends); and every binding of the
  mapping comes from such an entry, its value being the result of the inference on what
  stands after the separator as it is written, not trimmed. So a boolean is stored only
  when the value itself is \<open>true\<close> or \<open>false\<close> up to letter case, an integer only when the
  value itself is all decimal digits, a float when the float conversion accepts the
  value (it skips blanks at both ends), and otherwise the value itself as a string, with
  its whitespace.
\<close>

theorem key_stripped_value_untrimmed:
  assumes "parse_settings (Some s) = (Inr m, w)"
  shows "(\<forall>e \<in> set (settings_list s). is_valid e \<longrightarrow>
            entry_key e \<in> fst ` set m \<and>
            (\<exists>a b. takeWhile (\<lambda>c. c \<noteq> CHR ''='') e = a @ entry_key e @ b \<and>
                   list_all py_isspace a \<and> list_all py_isspace b \<and>
                   (entry_key e = [] \<or>
                    \<not> py_isspace (hd (entry_key e)) \<and> \<not> py_isspace (last (entry_key e))))) \<and>
         (\<forall>(k, x) \<in> set m. \<exists>e \<in> set (settings_list s).
            is_valid e \<and> k = entry_key e \<and> infer_value (entry_value e) = Inr x \<and>
            (\<forall>b. x = VBool b \<longrightarrow> py_lower (entry_value e) = (if b then ''true'' else ''false'')) \<and>
            (\<forall>n. x = VInt n \<longrightarrow> entry_value e \<noteq> [] \<and> list_all is_decimal (entry_value e) \<and>
                                n = int (digits_val 0 (entry_value e))) \<and>
            (\<forall>f. x = VFloat f \<longrightarrow> py_float (entry_value e) = Inr f \<and> \<not> py_isdigit (entry_value e)) \<and>
            (\<forall>u. x = VStr u \<longrightarrow> u = entry_value e))"
proof (cases "s = []")
  case True
  then have "m = []" using assms by (simp add: parse_settings_def)
  then show ?thesis using True by (simp add: settings_list_def is_valid_def)
next
  case False
  then have p: "parse_entries (settings_list s) [] = (Inr m, w)"
    using assms by (simp add: parse_settings_def)
  have keys: "\<forall>e \<in> set (settings_list s). is_valid e \<longrightarrow>
            entry_key e \<in> fst ` set m \<and>
            (\<exists>a b. takeWhile (\<lambda>c. c \<noteq> CHR ''='') e = a @ entry_key e @ b \<and>
                   list_all py_isspace a \<and> list_all py_isspace b \<and>
                   (entry_key e = [] \<or>
                    \<not> py_isspace (hd (entry_key e)) \<and> \<not> py_isspace (last (entry_key e))))"
    using parse_entries_key_stored [OF p] py_strip_spec [of "takeWhile (\<lambda>c. c \<noteq> CHR ''='') _"]
    by (simp add: entry_key_def)
  have vals: "\<exists>e \<in> set (settings_list s).
            is_valid e \<and> k = entry_key e \<and> infer_value (entry_value e) = Inr x \<and>
            (\<forall>b. x = VBool b \<longrightarrow> py_lower (entry_value e) = (if b then ''true'' else ''false'')) \<and>
            (\<forall>n. x = VInt n \<longrightarrow> entry_value e \<noteq> [] \<and> list_all is_decimal (entry_value e) \<and>
                                n = int (digits_val 0 (entry_value e))) \<and>
            (\<forall>f. x = VFloat f \<longrightarrow> py_float (entry_value e) = Inr f \<and> \<not> py_isdigit (entry_value e)) \<and>
            (\<forall>u. x = VStr u \<longrightarrow> u = entry_value e)"
    if kx: "(k, x) \<in> set m" for k x
  proof -
    obtain e where e: "e \<in> set (settings_list s)" "is_valid e" "k = entry_key e"
      "infer_value (entry_value e) = Inr x"
      using parse_entries_origin [OF p kx] by auto
    show ?thesis
      using e infer_value_as_written [OF e(4)] by blast
  qed
  show ?thesis
  proof (intro conjI)
    show "\<forall>e \<in> set (settings_list s). is_valid e \<longrightarrow>
            entry_key e \<in> fst ` set m \<and>
            (\<exists>a b. takeWhile (\<lambda>c. c \<noteq> CHR ''='') e = a @ entry_key e @ b \<and>
                   list_all py_isspace a \<and> list_all py_isspace b \<and>
                   (entry_key e = [] \<or>
                    \<not> py_isspace (hd (entry_key e)) \<and> \<not> py_isspace (last (entry_key e))))"
      by (rule keys)
  next
    show "\<forall>(k, x) \<in> set m. \<exists>e \<in> set (settings_list s).
            is_valid e \<and> k = entry_key e \<and> infer_value (entry_value e) = Inr x \<and>
            (\<forall>b. x = VBool b \<longrightarrow> py_lower (entry_value e) = (if b then ''true'' else ''false'')) \<and>
            (\<forall>n. x = VInt n \<longrightarrow> entry_value e \<noteq> [] \<and> list_all is_decimal (entry_value e) \<and>
                                n = int (digits_val 0 (entry_value e))) \<and>
            (\<forall>f. x = VFloat f \<longrightarrow> py_float (entry_value e) = Inr f \<and> \<not> py_isdigit (entry_value e)) \<and>
            (\<forall>u. x = VStr u \<longrightarrow> u = entry_value e)"
    proof
      fix p
      assume "p \<in> set m"
      then have "(fst p, snd p) \<in> set m" by simp
      from vals [OF this] show "case p of (k, x) \<Rightarrow> \<exists>e \<in> set (settings_list s).
            is_valid e \<and> k = entry_key e \<and> infer_value (entry_value e) = Inr x \<and>
            (\<forall>b. x = VBool b \<longrightarrow> py_lower (entry_value e) = (if b then ''true'' else ''false'')) \<and>
            (\<forall>n. x = VInt n \<longrightarrow> entry_value e \<noteq> [] \<and> list_all is_decimal (entry_value e) \<and>
                                n = int (digits_val 0 (entry_value e))) \<and>
            (\<forall>f. x = VFloat f \<longrightarrow> py_float (entry_value e) = Inr f \<and> \<not> py_isdigit (entry_value e)) \<and>
            (\<forall>u. x = VStr u \<longrightarrow> u = entry_value e)"
        by (simp only: case_prod_beta)
    qed
  qed
qed

theorem key_stripped_value_untrimmed_witness:
  "parse_settings (Some '' k = true,n= 3,i=42,b=TRUE'') =
     (Inr [(''k'', VStr '' true''), (''n'', VFloat (Finite False 3)), (''i'', VInt 42),
           (''b'', VBool True)], []) \<and>
   ''k'' \<in> fst ` set [(''k'', VStr '' true''), (''n'', VFloat (Finite False 3)),
                      (''i'', VInt 42), (''b'', VBool True)] \<and>
   (\<exists>e \<in> set (settings_list '' k = true,n= 3,i=42,b=TRUE'').
      is_valid e \<and> ''n'' = entry_key e \<and> py_float (entry_value e) = Inr (Finite False 3) \<and>
      \<not> py_isdigit (entry_value e)) \<and>
   (\<exists>e \<in> set (settings_list '' k = true,n= 3,i=42,b=TRUE'').
      is_valid e \<and> ''k'' = entry_key e \<and> entry_value e = '' true'')"
proof -
  let ?s = "'' k = true,n= 3,i=42,b=TRUE''"
  let ?m = "[(''k'', VStr '' true''), (''n'', VFloat (Finite False 3)), (''i'', VInt 42),
             (''b'', VBool True)]"
  have h: "parse_settings (Some ?s) = (Inr ?m, [])"
    by (simp add: char_classes builtins coercion)
  note t = key_stripped_value_untrimmed [OF h]
  have e: "'' k = true'' \<in> set (settings_list ?s)" "is_valid '' k = true''"
    "entry_key '' k = true'' = ''k''"
    by (simp_all add: settings_list_def is_valid_def entry_key_def char_classes builtins)
  have 1: "''k'' \<in> fst ` set ?m"
    using t [THEN conjunct1, THEN bspec, OF e(1)] e(2,3) by simp
  have n: "(''n'', VFloat (Finite False 3)) \<in> set ?m" and k: "(''k'', VStr '' true'') \<in> set ?m"
    by simp_all
  have 2: "\<exists>e \<in> set (settings_list ?s).
      is_valid e \<and> ''n'' = entry_key e \<and> py_float (entry_value e) = Inr (Finite False 3) \<and>
      \<not> py_isdigit (entry_value e)"
    using t [THEN conjunct2, THEN bspec, OF n] by auto
  have 3: "\<exists>e \<in> set (settings_list ?s).
      is_valid e \<and> ''k'' = entry_key e \<and> entry_value e = '' true''"
    using t [THEN conjunct2, THEN bspec, OF k] by auto
  show ?thesis using h 1 2 3 by blast
qed

section \<open>Splitting the settings string\<close>

text \<open>
  The empty settings string is not taken as one entry: as one entry it would be logged
  as invalid, but \<open>run\<close> skips the whole coercion for it (\<open>if settings:\<close>) and logs
  nothing.
\<close>

theorem empty_string_is_no_entry:
  "settings_list [] = [[]] \<and>
   parse_entries [[]] [] =
     (Inr [], [(WARNING, [Lit ''Ignoring invalid setting format: '', PStr []])]) \<and>
   parse_settings (Some []) = (Inr [], [])"
  by (simp add: settings_list_def parse_setting_def parse_settings_def)

text \<open>
  Claim C6, amended. For every settings string that is not empty, the coercion is the
  loop over its candidate entries, in order: the parts between commas when the string
  has a comma, the whole string otherwise. The parts between commas, joined with commas,
  give the string back, none has a comma, and there is one more of them than commas. An
  entry with a separator is a key without separator, the first separator, and a value;
  the loop hands that whole value, further separators included, to the inference, stores
  the result under the trimmed key and goes on (or stops with the exception of the
  inference); an entry without separator is logged as invalid and the loop goes on. The
  empty settings string is not coerced at all: the mapping is empty and nothing is
  logged.
\<close>

theorem settings_split:
  "(s \<noteq> [] \<longrightarrow> parse_settings (Some s) = parse_entries (settings_list s) []) \<and>
   parse_settings (Some []) = (Inr [], []) \<and>
   (CHR '','' \<in> set s \<longrightarrow> settings_list s = py_split (CHR '','') s) \<and>
   (CHR '','' \<notin> set s \<longrightarrow> settings_list s = [s]) \<and>
   py_join (CHR '','') (py_split (CHR '','') s) = s \<and>
   (\<forall>e \<in> set (py_split (CHR '','') s). CHR '','' \<notin> set e) \<and>
   length (py_split (CHR '','') s) = Suc (count_list s (CHR '','')) \<and>
   (CHR ''='' \<in> set e \<longrightarrow> (\<exists>k v. e = k @ CHR ''='' # v \<and> CHR ''='' \<notin> set k)) \<and>
   (CHR ''='' \<notin> set k \<longrightarrow>
      parse_entries ((k @ CHR ''='' # v) # rest) d =
        (case infer_value v of
           Inl x \<Rightarrow> (Inl x, [])
         | Inr x \<Rightarrow> parse_entries rest (dict_set (py_strip k) x d))) \<and>
   (CHR ''='' \<notin> set e \<longrightarrow>
      parse_entries (e # rest) d =
        (case parse_entries rest d of (r, w) \<Rightarrow> (r, invalid_warning e # w)))"
proof -
  have "s \<noteq> [] \<longrightarrow> parse_settings (Some s) = parse_entries (settings_list s) []"
    by (simp add: parse_settings_def)
  moreover have "parse_settings (Some []) = (Inr [], [])"
    by (simp add: parse_settings_def)
  moreover have "CHR '','' \<in> set s \<longrightarrow> settings_list s = py_split (CHR '','') s"
    and "CHR '','' \<notin> set s \<longrightarrow> settings_list s = [s]"
    by (simp_all add: settings_list_def)
  moreover have "py_join (CHR '','') (py_split (CHR '','') s) = s"
    by (rule py_join_split)
  moreover have "\<forall>e \<in> set (py_split (CHR '','') s). CHR '','' \<notin> set e"
    using py_split_no_sep [of _ "CHR '',''" s] by blast
  moreover have "length (py_split (CHR '','') s) = Suc (count_list s (CHR '',''))"
    by (rule length_py_split)
  moreover have "CHR ''='' \<in> set e \<longrightarrow> (\<exists>k v. e = k @ CHR ''='' # v \<and> CHR ''='' \<notin> set k)"
    using py_split1_first [of "CHR ''=''" e] by blast
  moreover have "CHR ''='' \<notin> set k \<longrightarrow>
      parse_entries ((k @ CHR ''='' # v) # rest) d =
        (case infer_value v of
           Inl x \<Rightarrow> (Inl x, [])
         | Inr x \<Rightarrow> parse_entries rest (dict_set (py_strip k) x d))"
    by (simp add: parse_setting_entry split: sum.split prod.split)
  moreover have "CHR ''='' \<notin> set e \<longrightarrow>
      parse_entries (e # rest) d =
        (case parse_entries rest d of (r, w) \<Rightarrow> (r, invalid_warning e # w))"
    by (simp add: parse_setting_def invalid_warning_def split: prod.split)
  ultimately show ?thesis by blast
qed

theorem settings_split_witness:
  "parse_settings (Some ''a=b=c,bad,d=1'') =
     (Inr [(''a'', VStr ''b=c''), (''d'', VInt 1)],
      [(WARNING, [Lit ''Ignoring invalid setting format: '', PStr ''bad''])]) \<and>
   parse_settings (Some ''a=b=c,bad,d=1'') = parse_entries [''a=b=c'', ''bad'', ''d=1''] [] \<and>
   parse_entries [''a=b=c'', ''bad'', ''d=1''] [] =
     parse_entries [''bad'', ''d=1''] [(''a'', VStr ''b=c'')] \<and>
   parse_settings (Some ''x=1'') = parse_entries [''x=1''] []"
proof -
  let ?s = "''a=b=c,bad,d=1''"
  have c: "CHR '','' \<in> set ?s" and n: "?s \<noteq> []" and k: "CHR ''='' \<notin> set ''a''"
    and c': "CHR '','' \<notin> set ''x=1''" and n': "''x=1'' \<noteq> []"
    by simp_all
  have v: "infer_value ''b=c'' = Inr (VStr ''b=c'')" and a: "py_strip ''a'' = ''a''"
    by (simp_all add: char_classes builtins coercion)
  note t = settings_split [of ?s "''bad''" "''a''" "''b=c''" "[''bad'', ''d=1'']" "[]"]
  note t' = settings_split [of "''x=1''" "''bad''" "''a''" "''b=c''" "[]" "[]"]
  have sl: "settings_list ?s = [''a=b=c'', ''bad'', ''d=1'']"
    using t c by simp
  have 1: "parse_settings (Some ?s) = parse_entries [''a=b=c'', ''bad'', ''d=1''] []"
    using t n sl by simp
  have 2: "parse_entries [''a=b=c'', ''bad'', ''d=1''] [] =
           parse_entries [''bad'', ''d=1''] [(''a'', VStr ''b=c'')]"
    using t k v a by simp
  have 3: "parse_settings (Some ''x=1'') = parse_entries [''x=1''] []"
    using t' c' n' by simp
  have 4: "parse_settings (Some ?s) =
     (Inr [(''a'', VStr ''b=c''), (''d'', VInt 1)],
      [(WARNING, [Lit ''Ignoring invalid setting format: '', PStr ''bad''])])"
    by (simp add: char_classes builtins coercion)
  show ?thesis using 1 2 3 4 by simp
qed

section \<open>Duplicate keys\<close>

text \<open>
  Claim C10. In a settings string where several valid entries have the same trimmed
  key, the resulting mapping has that key once, bound to the converted value of the last
  of them. The code does not do this when another entry has an all-digit value that is
  not decimal (or has more digits than the limit): \<open>run\<close> ends with \<open>ValueError\<close> and there
  is no mapping. When every value converts the code does what the claim says
  (\<open>last_duplicate_wins\<close> and \<open>last_duplicate_example\<close> below).
\<close>

theorem duplicates_lost_on_abort:
  "parse_settings (Some (''k=1,k=2,j='' @ [CHR 0xB2])) = (Inl ValueError, [])"
  by (simp add: char_classes builtins coercion)

lemma last_duplicate_wins:
  assumes "\<forall>e \<in> set (settings_list s). is_valid e \<longrightarrow> (\<exists>x. infer_value (entry_value e) = Inr x)"
  shows "\<exists>m w. parse_settings (Some s) = (Inr m, w) \<and> distinct (map fst m) \<and>
           (filter (\<lambda>e. is_valid e \<and> entry_key e = k) (settings_list s) \<noteq> [] \<longrightarrow>
              length (filter (\<lambda>p. fst p = k) m) = 1 \<and>
              (\<exists>x. map_of m k = Some x \<and>
                   infer_value (entry_value (last (filter (\<lambda>e. is_valid e \<and> entry_key e = k)
                     (settings_list s)))) = Inr x)) \<and>
           (\<forall>c \<in> set w. \<exists>e \<in> set (settings_list s). \<not> is_valid e \<and> c = invalid_warning e)"
proof (cases "s = []")
  case True
  then show ?thesis
    by (simp add: parse_settings_def settings_list_def is_valid_def)
next
  case False
  obtain m w where p: "parse_entries (settings_list s) [] = (Inr m, w)"
    using parse_entries_succeeds [OF assms] by blast
  have d: "distinct (map fst m)"
    using parse_entries_distinct [OF p] by simp
  have l: "filter (\<lambda>e. is_valid e \<and> entry_key e = k) (settings_list s) \<noteq> [] \<longrightarrow>
             (\<exists>x. map_of m k = Some x \<and>
                   infer_value (entry_value (last (filter (\<lambda>e. is_valid e \<and> entry_key e = k)
                     (settings_list s)))) = Inr x)"
    using parse_entries_lookup [OF p, of k] by (auto split: if_splits)
  have w: "w = map invalid_warning (filter (\<lambda>e. \<not> is_valid e) (settings_list s))"
    using parse_entries_warnings [OF p] .
  have "parse_settings (Some s) = (Inr m, w)"
    using False p by (simp add: parse_settings_def)
  moreover have "\<forall>c \<in> set w. \<exists>e \<in> set (settings_list s). \<not> is_valid e \<and> c = invalid_warning e"
    using w by auto
  ultimately show ?thesis using d l key_once [OF d] by blast
qed

lemma last_duplicate_example:
  "parse_settings (Some ''k=1,j=2, k =3'') = (Inr [(''k'', VInt 3), (''j'', VInt 2)], [])"
  by (simp add: char_classes builtins coercion)

section \<open>Negative numbers\<close>

text \<open>
  Claim C7. The value \<open>-5\<close> is not all-digit (no string that starts with \<open>-\<close> is), the
  float conversion accepts it, and the value stored is the float \<open>-5.0\<close>: neither an
  integer nor a string.
\<close>

theorem minus_five_is_float:
  "\<not> py_isdigit (CHR ''-'' # v) \<and>
   py_float ''-5'' = Inr (Finite True 5) \<and>
   infer_value ''-5'' = Inr (VFloat (Finite True 5)) \<and>
   parse_settings (Some ''k=-5'') = (Inr [(''k'', VFloat (Finite True 5))], [])"
  by (simp add: char_classes builtins coercion)

section \<open>Logging policy\<close>

text \<open>
  Claim C8. Whatever logging configuration \<open>setup_logging\<close> finds, what it leaves for
  the root logger and for the loggers \<open>scrapit\<close> and \<open>scrapy\<close> depends on the debug flag
  alone. With the flag set: the root logger and \<open>scrapit\<close> at \<open>DEBUG\<close>, \<open>scrapy\<close> at \<open>INFO\<close>,
  and a single root handler whose format has the file name and the line number. Without
  it: the root logger and \<open>scrapit\<close> at \<open>INFO\<close>, \<open>scrapy\<close> at \<open>WARNING\<close>, and a single root
  handler with the short format. The handlers found on the root logger are all removed,
  and a second call leaves exactly what it would have left without the first.
\<close>

theorem setup_logging_policy:
  "setup_logging True s =
     s\<lparr>root_level := DEBUG,
       root_handlers := [StreamHandler
         ''%(asctime)s - %(name)s - %(levelname)s - [%(filename)s:%(lineno)d] - %(message)s''],
       logger_level := (logger_level s)(''scrapit'' := DEBUG, ''scrapy'' := INFO)\<rparr> \<and>
   setup_logging False s =
     s\<lparr>root_level := INFO,
       root_handlers := [StreamHandler
         ''%(asctime)s - %(name)s - %(levelname)s - %(message)s''],
       logger_level := (logger_level s)(''scrapit'' := INFO, ''scrapy'' := WARNING)\<rparr> \<and>
   root_level (setup_logging d s) = root_level (setup_logging d s') \<and>
   root_handlers (setup_logging d s) = root_handlers (setup_logging d s') \<and>
   logger_level (setup_logging d s) ''scrapit'' = logger_level (setup_logging d s') ''scrapit'' \<and>
   logger_level (setup_logging d s) ''scrapy'' = logger_level (setup_logging d s') ''scrapy'' \<and>
   setup_logging d2 (setup_logging d1 s) = setup_logging d2 s"
  by (simp add: setup_logging_def basicConfig_def setLevel_def debug_format_def
      standard_format_def Let_def)

section \<open>Service assembly\<close>

text \<open>
  Claim C9. For all arguments, \<open>create_app\<close> returns an application with the fixed title,
  description and version, one cross-origin middleware that allows every origin, every
  method, every header and credentials, and one router: the result of the single call
  to the route factory, whose arguments are the five values given to \<open>create_app\<close>.
\<close>

theorem create_app_assembles:
  "create_app create_router project_path timeout additional_settings debug include_logs =
     (\<lparr>title = ''ScrapyRT-Compatible API'',
       description = ''FastAPI wrapper for Scrapy spiders with ScrapyRT compatibility'',
       version = ''1.0.0'',
       middleware = [\<lparr>allow_origins = [''*''], allow_credentials = True,
                      allow_methods = [''*''], allow_headers = [''*'']\<rparr>],
       routers = [create_router
                    \<lparr>arg_project_path = project_path, arg_timeout = timeout,
                     arg_additional_settings = additional_settings,
                     arg_debug = debug, arg_include_logs = include_logs\<rparr>]\<rparr>,
      [\<lparr>arg_project_path = project_path, arg_timeout = timeout,
        arg_additional_settings = additional_settings,
        arg_debug = debug, arg_include_logs = include_logs\<rparr>])"
  by (simp add: create_app_def FastAPI_def add_middleware_def include_router_def Let_def)

end
